theory Spec2Isabelle
  imports Complex_Main "HOL-Library.Word" "HOL-Library.Monad_Syntax"
begin

section \<open>Data model of the AVFoundation output engine\<close>

text \<open>
  The engine is the Objective-C class \<open>AVFEngineImpl\<close> (engine.mm). Its instance
  variables become the fields of the record \<open>engine\<close>; every method becomes a function
  that takes the engine and returns the updated engine (and the method's result).
  The objects of AVFoundation the engine talks to (the renderer, the synchronizer) are
  records of what the engine sets on them; a \<open>nil\<close> object is \<open>None\<close>, and a message
  sent to \<open>nil\<close> does nothing, as in Objective-C.
\<close>

type_synonym u32 = "32 word"
type_synonym u64 = "64 word"

text \<open>A \<open>float\<close> sample, kept as its 32-bit pattern: the engine only copies samples.\<close>
type_synonym float32 = "32 word"

subsection \<open>CMTime\<close>

text \<open>
  \<open>CMTime\<close> is CoreMedia's rational time stamp: \<open>value / timescale\<close> seconds, with a
  validity flag. \<open>kCMTimeZero\<close> is \<open>0/1\<close>; \<open>kCMTimeInvalid\<close> is the all-zero struct.
\<close>

record CMTime =
  cm_value :: int
  cm_timescale :: int
  cm_valid :: bool

definition kCMTimeZero :: CMTime where
  "kCMTimeZero = \<lparr>cm_value = 0, cm_timescale = 1, cm_valid = True\<rparr>"

definition kCMTimeInvalid :: CMTime where
  "kCMTimeInvalid = \<lparr>cm_value = 0, cm_timescale = 0, cm_valid = False\<rparr>"

definition CMTimeMake :: "int \<Rightarrow> int \<Rightarrow> CMTime" where
  "CMTimeMake v t = \<lparr>cm_value = v, cm_timescale = t, cm_valid = True\<rparr>"

text \<open>
  Modelled from the spec: \<open>CMTimeAdd\<close> is a CoreMedia function, absent from the
  sources. The spec describes the advance as \<open>nextPresentationTime += frameDuration\<close>
  on rational time stamps; the model adds two valid times with positive timescales
  exactly, on the least common multiple of the timescales, and gives the invalid time
  otherwise. CoreMedia's rounding when a timescale leaves 32 bits is not modelled.
\<close>

definition CMTimeAdd :: "CMTime \<Rightarrow> CMTime \<Rightarrow> CMTime" where
  "CMTimeAdd a b =
     (if cm_valid a \<and> cm_valid b \<and> 0 < cm_timescale a \<and> 0 < cm_timescale b
      then (let l = lcm (cm_timescale a) (cm_timescale b)
            in \<lparr>cm_value = cm_value a * (l div cm_timescale a) + cm_value b * (l div cm_timescale b),
                cm_timescale = l, cm_valid = True\<rparr>)
      else kCMTimeInvalid)"



subsection \<open>Formats and sample buffers\<close>

text \<open>
  \<open>setupAudioFormat\<close> builds an \<open>AVAudioFormat\<close> in one of two ways: the common
  float32 interleaved format for one or two channels, or from an
  \<open>AudioStreamBasicDescription\<close> for more channels.
\<close>

record AudioStreamBasicDescription =
  mSampleRate :: u32
  mChannelsPerFrame :: u32
  mBitsPerChannel :: u32
  mBytesPerFrame :: u32
  mFramesPerPacket :: u32
  mBytesPerPacket :: u32

datatype AVAudioFormat =
    CommonFormatFloat32 u32 u32 bool
  | StreamDescription AudioStreamBasicDescription

fun fmt_sampleRate :: "AVAudioFormat \<Rightarrow> u32" where
  "fmt_sampleRate (CommonFormatFloat32 r c i) = r"
| "fmt_sampleRate (StreamDescription d) = mSampleRate d"

fun fmt_channelCount :: "AVAudioFormat \<Rightarrow> u32" where
  "fmt_channelCount (CommonFormatFloat32 r c i) = c"
| "fmt_channelCount (StreamDescription d) = mChannelsPerFrame d"

text \<open>
  A \<open>CMSampleBuffer\<close> as \<open>feedAudioData\<close> creates it: the copied samples, the format
  (with their length in bytes), the format description, the number of frames, the
  timing info and the size of one frame.
\<close>

record CMSampleBuffer =
  sb_data :: "float32 list"
  sb_dataSize :: nat
  sb_format :: "AVAudioFormat option"
  sb_numSamples :: u64
  sb_duration :: CMTime
  sb_presentationTimeStamp :: CMTime
  sb_decodeTimeStamp :: CMTime
  sb_sampleSize :: nat

subsection \<open>The renderer, the synchronizer and the engine\<close>

record AVSampleBufferAudioRenderer =
  r_volume :: real
  r_muted :: bool
  r_spatialization :: bool
  r_requesting :: bool
  r_enqueued :: "CMSampleBuffer list"
  r_flushes :: nat

record AVSampleBufferRenderSynchronizer =
  y_rate :: real
  y_delaysRateChange :: bool

text \<open>The outcome of the three \<open>@available\<close> checks of the source.\<close>

record platform =
  macOS11 :: bool
  macOS11_3 :: bool
  macOS12 :: bool

text \<open>A log line: the format string of \<open>logMessage:\<close> and its arguments.\<close>

type_synonym log_line = "string \<times> int list"

record engine =
  os :: platform
  logged :: "log_line list"
  renderer :: "AVSampleBufferAudioRenderer option"
  synchronizer :: "AVSampleBufferRenderSynchronizer option"
  currentFormat :: "AVAudioFormat option"
  nextPresentationTime :: CMTime
  lastBufferPresentationTime :: CMTime
  sampleQueue :: "CMSampleBuffer list"
  maxQueueSize :: u32
  isEnabled :: bool
  isPaused :: bool

section \<open>The methods of the engine\<close>

definition logMessage :: "string \<Rightarrow> int list \<Rightarrow> engine \<Rightarrow> engine" where
  "logMessage fmt args s = s\<lparr>logged := logged s @ [(fmt, args)]\<rparr>"

text \<open>
  \<open>init\<close>. Instance variables start zeroed: no format, capacity 0, and the all-zero
  \<open>CMTime\<close>, which is \<open>kCMTimeInvalid\<close>. From macOS 11 on, the renderer and the
  synchronizer are created and the capacity is 8.
\<close>

definition init :: "platform \<Rightarrow> engine" where
  "init p =
     (if macOS11 p
      then \<lparr>os = p, logged = [],
            renderer = Some \<lparr>r_volume = 1, r_muted = False, r_spatialization = False,
                             r_requesting = False, r_enqueued = [], r_flushes = 0\<rparr>,
            synchronizer = Some \<lparr>y_rate = 0, y_delaysRateChange = \<not> macOS11_3 p\<rparr>,
            currentFormat = None,
            nextPresentationTime = kCMTimeZero,
            lastBufferPresentationTime = kCMTimeInvalid,
            sampleQueue = [], maxQueueSize = 8,
            isEnabled = False, isPaused = False\<rparr>
      else \<lparr>os = p, logged = [], renderer = None, synchronizer = None,
            currentFormat = None,
            nextPresentationTime = kCMTimeInvalid,
            lastBufferPresentationTime = kCMTimeInvalid,
            sampleQueue = [], maxQueueSize = 0,
            isEnabled = False, isPaused = False\<rparr>)"

definition setQueueSize :: "u32 \<Rightarrow> engine \<Rightarrow> engine" where
  "setQueueSize sz s =
     (if sz > 0 \<and> sz \<le> 10
      then logMessage ''[AVF] Sample queue size set to %u'' [uint sz]
             (s\<lparr>maxQueueSize := sz\<rparr>)
      else logMessage ''[AVF] Invalid queue size %u (must be 1-10), keeping current value %u''
             [uint sz, uint (maxQueueSize s)] s)"

text \<open>
  \<open>setupAudioFormat\<close>. Whether \<open>AVAudioFormat\<close> returns an object or \<open>nil\<close> is the
  platform's decision: it is the argument \<open>created\<close>. A property of a \<open>nil\<close> format
  reads as 0.
\<close>

definition setupAudioFormat :: "bool \<Rightarrow> u32 \<Rightarrow> u32 \<Rightarrow> engine \<Rightarrow> bool \<times> engine" where
  "setupAudioFormat created sampleRate channels s =
     (if macOS11 (os s) then
        (if sampleRate = (case currentFormat s of None \<Rightarrow> 0 | Some f \<Rightarrow> fmt_sampleRate f)
            \<and> channels = (case currentFormat s of None \<Rightarrow> 0 | Some f \<Rightarrow> fmt_channelCount f)
         then (True, s)
         else
           (let audioFormat =
                  (if channels = 1 \<or> channels = 2
                   then (if created then Some (CommonFormatFloat32 sampleRate channels True) else None)
                   else (let bytesPerFrame = channels * (32 div 8)
                         in if created
                            then Some (StreamDescription
                                   \<lparr>mSampleRate = sampleRate, mChannelsPerFrame = channels,
                                    mBitsPerChannel = 32, mBytesPerFrame = bytesPerFrame,
                                    mFramesPerPacket = 1, mBytesPerPacket = bytesPerFrame * 1\<rparr>)
                            else None))
            in case audioFormat of
                 None \<Rightarrow> (False, logMessage ''[AVF] Failed to create AVAudioFormat'' [] s)
               | Some f \<Rightarrow> (True, s\<lparr>currentFormat := Some f\<rparr>)))
      else (False, logMessage
              ''[AVF] Error: AVSampleBufferAudioRenderer not available on this system'' [] s))"

text \<open>The loop that empties the queue, releasing each buffer, in \<open>enable\<close> and \<open>disable\<close>.\<close>

fun clearQueue :: "CMSampleBuffer list \<Rightarrow> CMSampleBuffer list" where
  "clearQueue [] = []"
| "clearQueue (buffer # q) = clearQueue q"

definition enable :: "engine \<Rightarrow> bool \<times> engine" where
  "enable s =
     (if isEnabled s then (True, s)
      else if renderer s = None \<or> synchronizer s = None
      then (False, logMessage
              ''[AVF] Error: Missing required components for audio playback'' [] s)
      else if macOS11 (os s) then
        (True,
         logMessage ''[AVF] Audio engine enabled successfully using sample buffer renderer'' []
           (s\<lparr>synchronizer := map_option (\<lambda>y. y\<lparr>y_rate := 1\<rparr>) (synchronizer s),
              renderer := map_option
                 (\<lambda>r. r\<lparr>r_spatialization := (macOS12 (os s) \<or> r_spatialization r),
                        r_volume := 1, r_muted := False, r_requesting := True\<rparr>) (renderer s),
              nextPresentationTime := kCMTimeZero,
              lastBufferPresentationTime := kCMTimeInvalid,
              sampleQueue := clearQueue (sampleQueue s),
              isPaused := False,
              isEnabled := True\<rparr>))
      else (False, logMessage
              ''[AVF] Error: AVSampleBufferAudioRenderer not available on this system'' [] s))"

definition disable :: "engine \<Rightarrow> engine" where
  "disable s =
     (if \<not> isEnabled s then s
      else
        (let s1 =
               (if macOS11 (os s) then
                  (let s' = s\<lparr>renderer := map_option (\<lambda>r. r\<lparr>r_requesting := False\<rparr>) (renderer s),
                              sampleQueue := clearQueue (sampleQueue s)\<rparr>
                   in if synchronizer s' \<noteq> None
                      then s'\<lparr>synchronizer := map_option (\<lambda>y. y\<lparr>y_rate := 0\<rparr>) (synchronizer s'),
                              renderer := map_option
                                (\<lambda>r. r\<lparr>r_flushes := Suc (r_flushes r)\<rparr>) (renderer s')\<rparr>
                      else s')
                else s)
         in logMessage ''[AVF] Audio engine disabled'' []
              (s1\<lparr>isEnabled := False, isPaused := False\<rparr>)))"

definition pause :: "engine \<Rightarrow> engine" where
  "pause s =
     (if \<not> isEnabled s then s
      else
        (let s1 = s\<lparr>isPaused := True\<rparr>
         in if macOS11 (os s1)
            then logMessage ''[AVF] Paused audio playback'' []
                   (s1\<lparr>synchronizer := map_option (\<lambda>y. y\<lparr>y_rate := 0\<rparr>) (synchronizer s1)\<rparr>)
            else s1))"

definition resume :: "engine \<Rightarrow> engine" where
  "resume s =
     (if \<not> isEnabled s \<or> \<not> isPaused s then s
      else
        (let s1 = (if macOS11 (os s)
                   then logMessage ''[AVF] Resumed audio playback'' []
                          (s\<lparr>synchronizer := map_option (\<lambda>y. y\<lparr>y_rate := 1\<rparr>) (synchronizer s)\<rparr>)
                   else s)
         in s1\<lparr>isPaused := False\<rparr>))"

text \<open>
  \<open>renderFromQueue\<close>, the block the renderer calls when it wants data: it takes the
  front of the queue and hands it to the renderer.
\<close>

definition renderFromQueue :: "engine \<Rightarrow> engine" where
  "renderFromQueue s =
     (if \<not> isEnabled s \<or> isPaused s then s
      else case sampleQueue s of
             [] \<Rightarrow> s
           | sampleBuffer # rest \<Rightarrow>
               (let s1 = s\<lparr>sampleQueue := rest\<rparr>
                in if macOS11 (os s1)
                   then s1\<lparr>renderer := map_option
                            (\<lambda>r. r\<lparr>r_enqueued := r_enqueued r @ [sampleBuffer]\<rparr>) (renderer s1)\<rparr>
                   else s1))"

text \<open>
  What the platform answers during one \<open>feedAudioData\<close>: whether the format object is
  created, whether the allocation succeeds, and the status of the two CoreMedia calls.
\<close>

record feed_ext =
  x_format :: bool
  x_alloc :: bool
  x_blockStatus :: int
  x_sampleStatus :: int
  x_sampleBuffer :: bool

definition noErr :: int where
  "noErr = 0"

definition feedAudioData ::
  "feed_ext \<Rightarrow> float32 list \<Rightarrow> u32 \<Rightarrow> u32 \<Rightarrow> u64 \<Rightarrow> engine \<Rightarrow> u64 \<times> engine" where
  "feedAudioData x audioData sampleRate channels frameCount s =
     (if \<not> isEnabled s \<or> isPaused s then (0, s)
      else if length audioData = 0 \<or> frameCount = 0 \<or> channels = 0
      then (0, logMessage ''[AVF] Invalid audio data parameters'' [] s)
      else
        (case setupAudioFormat (x_format x) sampleRate channels s of
           (False, s1) \<Rightarrow> (0, s1)
         | (True, s1) \<Rightarrow>
             (if macOS11 (os s1) then
                (if length (sampleQueue s1) \<ge> unat (maxQueueSize s1) then (0, s1)
                 else
                   (let sampleSize = 4 * unat channels;
                        dataSize = 4 * length audioData
                    in if \<not> x_alloc x
                       then (0, logMessage ''[AVF] Failed to allocate memory for audio data'' [] s1)
                       else if x_blockStatus x \<noteq> noErr
                       then (0, logMessage ''[AVF] Failed to create block buffer: %d''
                                  [x_blockStatus x] s1)
                       else
                         (let frameDuration = CMTimeMake (sint frameCount) (sint sampleRate);
                              currentPresentationTime = nextPresentationTime s1;
                              s2 = s1\<lparr>nextPresentationTime :=
                                        CMTimeAdd (nextPresentationTime s1) frameDuration,
                                      lastBufferPresentationTime := currentPresentationTime\<rparr>;
                              sampleBuffer =
                                \<lparr>sb_data = audioData,
                                 sb_dataSize = dataSize,
                                 sb_format = currentFormat s2,
                                 sb_numSamples = frameCount,
                                 sb_duration = frameDuration,
                                 sb_presentationTimeStamp = kCMTimeInvalid,
                                 sb_decodeTimeStamp = kCMTimeInvalid,
                                 sb_sampleSize = sampleSize\<rparr>
                          in if x_sampleStatus x = noErr \<and> x_sampleBuffer x
                             then (frameCount, s2\<lparr>sampleQueue := sampleQueue s2 @ [sampleBuffer]\<rparr>)
                             else (0, logMessage ''[AVF] Failed to create sample buffer: %d''
                                        [x_sampleStatus x] s2))))
              else (0, logMessage
                      ''[AVF] Error: AVSampleBufferAudioRenderer not available on this system''
                      [] s1))))"

definition flush :: "engine \<Rightarrow> engine" where
  "flush s =
     (if \<not> isEnabled s then s
      else if macOS11 (os s) then
        (let s1 = s\<lparr>nextPresentationTime := kCMTimeZero,
                    lastBufferPresentationTime := kCMTimeInvalid\<rparr>
         in if renderer s1 \<noteq> None
            then s1\<lparr>renderer := map_option (\<lambda>r. r\<lparr>r_flushes := Suc (r_flushes r)\<rparr>) (renderer s1)\<rparr>
            else s1)
      else s)"

definition isReadyForMoreMediaData :: "engine \<Rightarrow> bool" where
  "isReadyForMoreMediaData s =
     (if \<not> isEnabled s \<or> isPaused s then False
      else length (sampleQueue s) < unat (maxQueueSize s))"

definition pendingBufferCount :: "engine \<Rightarrow> u32" where
  "pendingBufferCount s = of_nat (length (sampleQueue s))"

section \<open>The host driving the engine\<close>

text \<open>
  The host (\<open>AVFOutput\<close> in foo_out_avfoundation.cpp) calls \<open>feedAudioData\<close> once per
  chunk. One call is the record \<open>feed_call\<close>: its arguments and the platform's answers.
  \<open>feedSeq\<close> makes the calls in order and lists, for each, the returned frame count
  and the engine after the call.
\<close>

record feed_call =
  c_ext :: feed_ext
  c_data :: "float32 list"
  c_sampleRate :: u32
  c_channels :: u32
  c_frameCount :: u64

definition feedCall :: "feed_call \<Rightarrow> engine \<Rightarrow> u64 \<times> engine" where
  "feedCall c s =
     feedAudioData (c_ext c) (c_data c) (c_sampleRate c) (c_channels c) (c_frameCount c) s"

fun feedSeq :: "feed_call list \<Rightarrow> engine \<Rightarrow> (u64 \<times> engine) list" where
  "feedSeq [] s = []"
| "feedSeq (c # cs) s = feedCall c s # feedSeq cs (snd (feedCall c s))"

text \<open>The engine after a sequence of calls.\<close>

fun feedAll :: "feed_call list \<Rightarrow> engine \<Rightarrow> engine" where
  "feedAll [] s = s"
| "feedAll (c # cs) s = feedAll cs (snd (feedCall c s))"

text \<open>
  The unit an accepted call appends to the queue, and the duration it is given:
  \<open>CMTimeMake(frameCount, sampleRate)\<close>, whose arguments are converted to the signed
  \<open>int64_t\<close> and \<open>int32_t\<close> of \<open>CMTime\<close>.
\<close>

definition frameDuration :: "feed_call \<Rightarrow> CMTime" where
  "frameDuration c = CMTimeMake (sint (c_frameCount c)) (sint (c_sampleRate c))"

definition builtUnit :: "feed_call \<Rightarrow> engine \<Rightarrow> CMSampleBuffer" where
  "builtUnit c s =
     \<lparr>sb_data = c_data c, sb_dataSize = 4 * length (c_data c),
      sb_format = currentFormat
        (snd (setupAudioFormat (x_format (c_ext c)) (c_sampleRate c) (c_channels c) s)),
      sb_numSamples = c_frameCount c,
      sb_duration = frameDuration c,
      sb_presentationTimeStamp = kCMTimeInvalid,
      sb_decodeTimeStamp = kCMTimeInvalid,
      sb_sampleSize = 4 * unat (c_channels c)\<rparr>"



text \<open>
  A call whose arguments pass the validation and for which the platform creates every
  object asked of it.
\<close>

definition acceptable :: "feed_call \<Rightarrow> bool" where
  "acceptable c \<longleftrightarrow>
     c_data c \<noteq> [] \<and> c_frameCount c \<noteq> 0 \<and> c_channels c \<noteq> 0 \<and>
     x_format (c_ext c) \<and> x_alloc (c_ext c) \<and> x_blockStatus (c_ext c) = noErr \<and>
     x_sampleStatus (c_ext c) = noErr \<and> x_sampleBuffer (c_ext c)"

text \<open>The free places of the queue.\<close>

definition room :: "engine \<Rightarrow> nat" where
  "room s = unat (maxQueueSize s) - length (sampleQueue s)"

text \<open>All operations of the engine, and a run of them in order.\<close>

datatype op =
    OpFeed feed_call
  | OpRender
  | OpSetQueueSize u32
  | OpSetupAudioFormat bool u32 u32
  | OpEnable
  | OpDisable
  | OpFlush
  | OpPause
  | OpResume

fun step :: "op \<Rightarrow> engine \<Rightarrow> engine" where
  "step (OpFeed c) s = snd (feedCall c s)"
| "step OpRender s = renderFromQueue s"
| "step (OpSetQueueSize n) s = setQueueSize n s"
| "step (OpSetupAudioFormat created r c) s = snd (setupAudioFormat created r c s)"
| "step OpEnable s = snd (enable s)"
| "step OpDisable s = disable s"
| "step OpFlush s = flush s"
| "step OpPause s = pause s"
| "step OpResume s = resume s"

fun run :: "op list \<Rightarrow> engine \<Rightarrow> engine" where
  "run [] s = s"
| "run (a # as) s = run as (step a s)"

text \<open>
  A run in which no \<open>setQueueSize\<close> call that is accepted sets a capacity below the
  number of units queued at that moment.
\<close>

fun noShrink :: "op list \<Rightarrow> engine \<Rightarrow> bool" where
  "noShrink [] s = True"
| "noShrink (OpSetQueueSize n # as) s =
     ((0 < n \<and> n \<le> 10 \<longrightarrow> length (sampleQueue s) \<le> unat n) \<and>
      noShrink as (step (OpSetQueueSize n) s))"
| "noShrink (a # as) s = noShrink as (step a s)"





subsection \<open>Concrete engines and calls\<close>

definition macOS_current :: platform where
  "macOS_current = \<lparr>macOS11 = True, macOS11_3 = True, macOS12 = True\<rparr>"

definition ext_ok :: feed_ext where
  "ext_ok = \<lparr>x_format = True, x_alloc = True, x_blockStatus = 0, x_sampleStatus = 0,
             x_sampleBuffer = True\<rparr>"

text \<open>A stereo chunk of \<open>n\<close> frames at 48000 Hz.\<close>

definition chunk48k :: "nat \<Rightarrow> feed_call" where
  "chunk48k n = \<lparr>c_ext = ext_ok, c_data = replicate (2 * n) 0, c_sampleRate = 48000,
                 c_channels = 2, c_frameCount = of_nat n\<rparr>"

text \<open>
  The engine as the constructor of \<open>AVFOutput\<close> leaves it: \<open>setQueueSize(3)\<close>, then
  \<open>enable()\<close>.
\<close>

definition engine3 :: engine where
  "engine3 = snd (enable (setQueueSize 3 (init macOS_current)))"

text \<open>That engine after two chunks, of 100 and of 200 frames, none rendered yet.\<close>

definition engine3_two :: engine where
  "engine3_two = feedAll [chunk48k 100, chunk48k 200] engine3"

text \<open>A run that fills a queue of capacity 3.\<close>

definition fill3 :: "op list" where
  "fill3 = [OpSetQueueSize 3, OpEnable, OpFeed (chunk48k 100), OpFeed (chunk48k 100),
            OpFeed (chunk48k 100)]"




section \<open>The sample converter\<close>

text \<open>
  \<open>utils::neon_convert\<close> narrows \<open>count\<close> doubles to floats, sixteen per iteration
  with NEON loads, conversions and stores, then the remaining \<open>count % 16\<close> one by one.
  The buffers are lists and the pointers \<open>src\<close> and \<open>dst\<close> are indices into them. A
  load or store outside its buffer is undefined behaviour in C: the model returns
  \<open>None\<close>, and a block stops at the first such access. The narrowing of one
  double is the parameter \<open>cvt\<close>: the cast \<open>(float)x\<close> of the tail and each lane
  of \<open>vcvt_f32_f64\<close> are the same rounding.
\<close>

definition vld1q_f64 :: "'d list \<Rightarrow> nat \<Rightarrow> ('d \<times> 'd) option" where
  "vld1q_f64 mem p = (if p + 2 \<le> length mem then Some (mem ! p, mem ! (p + 1)) else None)"

definition vcvt_f32_f64 :: "('d \<Rightarrow> 'f) \<Rightarrow> 'd \<times> 'd \<Rightarrow> 'f \<times> 'f" where
  "vcvt_f32_f64 cvt v = (cvt (fst v), cvt (snd v))"

definition vcombine_f32 :: "'f \<times> 'f \<Rightarrow> 'f \<times> 'f \<Rightarrow> 'f \<times> 'f \<times> 'f \<times> 'f" where
  "vcombine_f32 lo hi = (fst lo, snd lo, fst hi, snd hi)"

definition vst1q_f32 :: "'f list \<Rightarrow> nat \<Rightarrow> 'f \<times> 'f \<times> 'f \<times> 'f \<Rightarrow> 'f list option" where
  "vst1q_f32 mem p v =
     (case v of (a, b, c, d) \<Rightarrow>
        if p + 4 \<le> length mem
        then Some (mem[p := a, p + 1 := b, p + 2 := c, p + 3 := d])
        else None)"

text \<open>The body of the \<open>while (n--)\<close> loop: eight loads, then four stores.\<close>

definition neon_block ::
  "('d \<Rightarrow> 'f) \<Rightarrow> 'd list \<Rightarrow> nat \<Rightarrow> 'f list \<Rightarrow> nat \<Rightarrow> 'f list option" where
  "neon_block cvt input src output dst =
     do {
       d1 \<leftarrow> vld1q_f64 input src;
       d2 \<leftarrow> vld1q_f64 input (src + 2);
       d3 \<leftarrow> vld1q_f64 input (src + 4);
       d4 \<leftarrow> vld1q_f64 input (src + 6);
       d5 \<leftarrow> vld1q_f64 input (src + 8);
       d6 \<leftarrow> vld1q_f64 input (src + 10);
       d7 \<leftarrow> vld1q_f64 input (src + 12);
       d8 \<leftarrow> vld1q_f64 input (src + 14);
       o1 \<leftarrow> vst1q_f32 output dst (vcombine_f32 (vcvt_f32_f64 cvt d1) (vcvt_f32_f64 cvt d2));
       o2 \<leftarrow> vst1q_f32 o1 (dst + 4) (vcombine_f32 (vcvt_f32_f64 cvt d3) (vcvt_f32_f64 cvt d4));
       o3 \<leftarrow> vst1q_f32 o2 (dst + 8) (vcombine_f32 (vcvt_f32_f64 cvt d5) (vcvt_f32_f64 cvt d6));
       vst1q_f32 o3 (dst + 12) (vcombine_f32 (vcvt_f32_f64 cvt d7) (vcvt_f32_f64 cvt d8))
     }"

text \<open>The main loop: \<open>n\<close> blocks; it returns the advanced pointers and the output.\<close>

fun neon_loop ::
  "('d \<Rightarrow> 'f) \<Rightarrow> nat \<Rightarrow> 'd list \<Rightarrow> nat \<Rightarrow> 'f list \<Rightarrow> nat \<Rightarrow> (nat \<times> nat \<times> 'f list) option" where
  "neon_loop cvt 0 input src output dst = Some (src, dst, output)"
| "neon_loop cvt (Suc n) input src output dst =
     (case neon_block cvt input src output dst of
        None \<Rightarrow> None
      | Some out \<Rightarrow> neon_loop cvt n input (src + 16) out (dst + 16))"

text \<open>The tail: \<open>for (i = 0; i < remaining; i++) dst[i] = (float)src[i]\<close>.\<close>

function tail_loop ::
  "('d \<Rightarrow> 'f) \<Rightarrow> nat \<Rightarrow> nat \<Rightarrow> 'd list \<Rightarrow> nat \<Rightarrow> 'f list \<Rightarrow> nat \<Rightarrow> 'f list option" where
  "tail_loop cvt i remaining input src output dst =
     (if i < remaining
      then (if src + i < length input \<and> dst + i < length output
            then tail_loop cvt (Suc i) remaining input src
                   (output[dst + i := cvt (input ! (src + i))]) dst
            else None)
      else Some output)"
  by pat_completeness auto
termination
  by (relation "measure (\<lambda>(cvt, i, remaining, input, src, output, dst). remaining - i)") auto

definition neon_convert :: "('d \<Rightarrow> 'f) \<Rightarrow> 'd list \<Rightarrow> 'f list \<Rightarrow> nat \<Rightarrow> 'f list option" where
  "neon_convert cvt input output count =
     (case neon_loop cvt (count div 16) input 0 output 0 of
        None \<Rightarrow> None
      | Some (src, dst, out) \<Rightarrow> tail_loop cvt 0 (count mod 16) input src out dst)"

text \<open>
  The converter as the spec words it: a direct narrowing cast of every sample, in order.
\<close>

definition scalar_convert :: "('d \<Rightarrow> 'f) \<Rightarrow> 'd list \<Rightarrow> 'f list" where
  "scalar_convert cvt input = map cvt input"

section \<open>What the methods leave alone\<close>

lemma setup_frame:
  "os (snd (setupAudioFormat cr r c s)) = os s"
  "isEnabled (snd (setupAudioFormat cr r c s)) = isEnabled s"
  "isPaused (snd (setupAudioFormat cr r c s)) = isPaused s"
  "maxQueueSize (snd (setupAudioFormat cr r c s)) = maxQueueSize s"
  "sampleQueue (snd (setupAudioFormat cr r c s)) = sampleQueue s"
  "nextPresentationTime (snd (setupAudioFormat cr r c s)) = nextPresentationTime s"
  "lastBufferPresentationTime (snd (setupAudioFormat cr r c s)) = lastBufferPresentationTime s"
  "renderer (snd (setupAudioFormat cr r c s)) = renderer s"
  "synchronizer (snd (setupAudioFormat cr r c s)) = synchronizer s"
  by (simp_all add: setupAudioFormat_def logMessage_def Let_def split: option.splits)

lemma setup_frameD:
  "setupAudioFormat cr r c s = (b, s1) \<Longrightarrow>
   os s1 = os s \<and> isEnabled s1 = isEnabled s \<and> isPaused s1 = isPaused s \<and>
   maxQueueSize s1 = maxQueueSize s \<and> sampleQueue s1 = sampleQueue s \<and>
   nextPresentationTime s1 = nextPresentationTime s \<and>
   lastBufferPresentationTime s1 = lastBufferPresentationTime s \<and>
   renderer s1 = renderer s \<and> synchronizer s1 = synchronizer s"
  using setup_frame [of cr r c s] by simp

lemma setup_created:
  "macOS11 (os s) \<Longrightarrow> fst (setupAudioFormat True r c s)"
  by (simp add: setupAudioFormat_def logMessage_def Let_def split: option.splits)

lemma feed_frame:
  "os (snd (feedCall c s)) = os s"
  "isEnabled (snd (feedCall c s)) = isEnabled s"
  "isPaused (snd (feedCall c s)) = isPaused s"
  "maxQueueSize (snd (feedCall c s)) = maxQueueSize s"
  "renderer (snd (feedCall c s)) = renderer s"
  "synchronizer (snd (feedCall c s)) = synchronizer s"
  by (auto simp: feedCall_def feedAudioData_def logMessage_def Let_def
           split: prod.splits bool.splits dest!: setup_frameD)

lemma engine3_fields:
  "isEnabled engine3" "\<not> isPaused engine3" "macOS11 (os engine3)"
  "sampleQueue engine3 = []" "maxQueueSize engine3 = 3" "currentFormat engine3 = None"
  "nextPresentationTime engine3 = kCMTimeZero"
  "lastBufferPresentationTime engine3 = kCMTimeInvalid"
  by (simp_all add: engine3_def enable_def setQueueSize_def init_def logMessage_def
        macOS_current_def)

lemma feed_accepted:
  assumes "fst (feedCall c s) \<noteq> 0"
  shows "fst (feedCall c s) = c_frameCount c"
    and "isEnabled s" and "\<not> isPaused s"
    and "length (sampleQueue s) < unat (maxQueueSize s)"
    and "sampleQueue (snd (feedCall c s)) = sampleQueue s @ [builtUnit c s]"
    and "lastBufferPresentationTime (snd (feedCall c s)) = nextPresentationTime s"
    and "nextPresentationTime (snd (feedCall c s)) =
           CMTimeAdd (nextPresentationTime s) (frameDuration c)"
  using assms
  by (auto simp: feedCall_def feedAudioData_def logMessage_def Let_def builtUnit_def frameDuration_def
           split: prod.splits bool.splits if_splits dest!: setup_frameD)

lemma feed_rejected_queue:
  "fst (feedCall c s) = 0 \<Longrightarrow> sampleQueue (snd (feedCall c s)) = sampleQueue s"
  by (auto simp: feedCall_def feedAudioData_def logMessage_def Let_def
           split: prod.splits bool.splits if_splits dest!: setup_frameD)

lemma feed_full:
  "unat (maxQueueSize s) \<le> length (sampleQueue s) \<Longrightarrow> fst (feedCall c s) = 0"
  by (auto simp: feedCall_def feedAudioData_def logMessage_def Let_def
           split: prod.splits bool.splits if_splits dest!: setup_frameD)

lemma feed_accepts:
  assumes "isEnabled s" "\<not> isPaused s" "macOS11 (os s)" "acceptable c"
    and "length (sampleQueue s) < unat (maxQueueSize s)"
  shows "fst (feedCall c s) = c_frameCount c"
proof -
  obtain s1 where e: "setupAudioFormat True (c_sampleRate c) (c_channels c) s = (True, s1)"
    using setup_created [OF assms(3), of "c_sampleRate c" "c_channels c"]
    by (cases "setupAudioFormat True (c_sampleRate c) (c_channels c) s") simp
  from setup_frameD [OF e] assms show ?thesis
    by (simp add: feedCall_def feedAudioData_def acceptable_def e Let_def)
qed

lemma clearQueue_Nil: "clearQueue q = []"
  by (induction q) simp_all

lemma flush_queue: "sampleQueue (flush s) = sampleQueue s"
  by (simp add: flush_def Let_def)

lemma acceptable_chunk48k: "0 < n \<Longrightarrow> n < 2 ^ 64 \<Longrightarrow> acceptable (chunk48k n)"
  using of_nat_neq_0 [of n, where 'a = 64]
  by (simp add: acceptable_def chunk48k_def ext_ok_def noErr_def)

lemma feedAll_flags:
  "isEnabled (feedAll cs s) = isEnabled s \<and> isPaused (feedAll cs s) = isPaused s \<and>
   os (feedAll cs s) = os s \<and> maxQueueSize (feedAll cs s) = maxQueueSize s"
  by (induction cs arbitrary: s) (simp_all add: feed_frame)

section \<open>Input validation and the state gate of feedAudioData\<close>

text \<open>
  C10. While the engine is disabled or paused, \<open>feedAudioData\<close> returns 0 at once,
  whatever its arguments and whatever the platform would answer: the check comes before
  the validation of the input, before \<open>setupAudioFormat\<close> and before the queue and
  the time stamps are touched. The engine, its log included, is returned as it was.
\<close>

theorem feed_gated_when_disabled_or_paused:
  "\<not> isEnabled s \<or> isPaused s \<Longrightarrow>
   feedAudioData x audioData sampleRate channels frameCount s = (0, s)"
  by (auto simp: feedAudioData_def)

theorem feed_gated_witness:
  "\<not> isEnabled (init macOS_current) \<and>
   feedAudioData ext_ok [0, 0] 48000 2 1 (init macOS_current) = (0, init macOS_current)"
  using feed_gated_when_disabled_or_paused [of "init macOS_current" ext_ok "[0, 0]" 48000 2 1]
  by (simp add: init_def macOS_current_def)

text \<open>
  C6. On an enabled engine that is not paused, a call of \<open>feedAudioData\<close> with a frame
  count of zero, with zero channels or with an empty sample vector returns 0, and the
  engine after the call is the engine before it with one more log line
  (\<open>Invalid audio data parameters\<close>): the queue, \<open>nextPresentationTime\<close>,
  \<open>lastBufferPresentationTime\<close> and the current format are as they were.
\<close>

theorem feed_invalid_input_rejected:
  "isEnabled s \<Longrightarrow> \<not> isPaused s \<Longrightarrow>
   frameCount = 0 \<or> channels = 0 \<or> audioData = [] \<Longrightarrow>
   feedAudioData x audioData sampleRate channels frameCount s =
     (0, s\<lparr>logged := logged s @ [(''[AVF] Invalid audio data parameters'', [])]\<rparr>)"
  by (auto simp: feedAudioData_def logMessage_def)

theorem feed_invalid_input_witness:
  "isEnabled engine3 \<and> \<not> isPaused engine3 \<and>
   feedAudioData ext_ok [0, 0] 48000 2 0 engine3 =
     (0, engine3\<lparr>logged := logged engine3 @ [(''[AVF] Invalid audio data parameters'', [])]\<rparr>)"
  using feed_invalid_input_rejected [of engine3 0 2 "[0, 0]" ext_ok 48000]
  by (simp add: engine3_fields)

section \<open>The capacity of the queue\<close>

text \<open>
  C5. \<open>setQueueSize n\<close> with \<open>n\<close> from 1 to 10 sets the capacity to \<open>n\<close>; with any
  other \<open>n\<close> (0 included) the capacity stays what it was and a warning is logged. In
  both cases nothing else of the engine changes: the result is the engine before the
  call with the new capacity, if any, and one more log line.
\<close>

theorem setQueueSize_range:
  "(unat n \<in> {1..10} \<longrightarrow>
      setQueueSize n s =
        s\<lparr>maxQueueSize := n,
          logged := logged s @ [(''[AVF] Sample queue size set to %u'', [uint n])]\<rparr>) \<and>
   (unat n \<notin> {1..10} \<longrightarrow>
      setQueueSize n s =
        s\<lparr>logged := logged s @
            [(''[AVF] Invalid queue size %u (must be 1-10), keeping current value %u'',
              [uint n, uint (maxQueueSize s)])]\<rparr>)"
  by (auto simp: setQueueSize_def logMessage_def word_less_nat_alt word_le_nat_alt)

theorem setQueueSize_range_witness:
  "unat (3 :: u32) \<in> {1..10} \<and>
   maxQueueSize (setQueueSize 3 (init macOS_current)) = 3 \<and>
   unat (11 :: u32) \<notin> {1..10} \<and>
   maxQueueSize (setQueueSize 11 (init macOS_current)) = 8 \<and>
   unat (0 :: u32) \<notin> {1..10} \<and>
   maxQueueSize (setQueueSize 0 (init macOS_current)) = 8"
  using setQueueSize_range [of 3 "init macOS_current"]
    setQueueSize_range [of 11 "init macOS_current"]
    setQueueSize_range [of 0 "init macOS_current"]
  by (simp add: init_def macOS_current_def)

section \<open>The format\<close>

text \<open>
  C7. When a call of \<open>setupAudioFormat\<close> has returned true, a second call with the same
  sample rate and channel count returns true on the comparison with the current format
  alone: whether the platform would create a format object or not plays no part, no
  format is built, and the engine after the second call is the engine before it, the
  current format included.
\<close>

theorem setupAudioFormat_idempotent:
  "setupAudioFormat created sampleRate channels s = (True, s1) \<Longrightarrow>
   setupAudioFormat created' sampleRate channels s1 = (True, s1)"
  by (auto simp: setupAudioFormat_def logMessage_def Let_def split: if_splits option.splits)

theorem setupAudioFormat_idempotent_witness:
  "setupAudioFormat True 48000 2 engine3 =
     (True, engine3\<lparr>currentFormat := Some (CommonFormatFloat32 48000 2 True)\<rparr>) \<and>
   setupAudioFormat False 48000 2
       (engine3\<lparr>currentFormat := Some (CommonFormatFloat32 48000 2 True)\<rparr>) =
     (True, engine3\<lparr>currentFormat := Some (CommonFormatFloat32 48000 2 True)\<rparr>)"
proof -
  have first: "setupAudioFormat True 48000 2 engine3 =
     (True, engine3\<lparr>currentFormat := Some (CommonFormatFloat32 48000 2 True)\<rparr>)"
    by (simp add: setupAudioFormat_def engine3_fields)
  from setupAudioFormat_idempotent [OF first, of False] first show ?thesis by simp
qed

section \<open>The bound on the queue\<close>

lemma step_queue:
  "length (sampleQueue (step a s)) \<le> length (sampleQueue s) \<or>
   (length (sampleQueue (step a s)) = Suc (length (sampleQueue s)) \<and>
    length (sampleQueue s) < unat (maxQueueSize s) \<and> (\<exists>c. a = OpFeed c))"
proof (cases a)
  case (OpFeed c)
  show ?thesis
  proof (cases "fst (feedCall c s) = 0")
    case True
    then show ?thesis using OpFeed by (simp add: feed_rejected_queue)
  next
    case False
    from feed_accepted(4,5) [OF False] show ?thesis using OpFeed by simp
  qed
next
  case OpRender
  then show ?thesis by (simp add: renderFromQueue_def Let_def split: list.splits)
next
  case (OpSetQueueSize n)
  then show ?thesis by (simp add: setQueueSize_def logMessage_def)
next
  case (OpSetupAudioFormat cr r c)
  then show ?thesis by (simp add: setup_frame)
next
  case OpEnable
  then show ?thesis by (simp add: enable_def logMessage_def clearQueue_Nil)
next
  case OpDisable
  then show ?thesis by (simp add: disable_def logMessage_def clearQueue_Nil Let_def)
next
  case OpFlush
  then show ?thesis by (simp add: flush_queue)
next
  case OpPause
  then show ?thesis by (simp add: pause_def logMessage_def Let_def)
next
  case OpResume
  then show ?thesis by (simp add: resume_def logMessage_def Let_def)
qed

lemma step_capacity:
  "maxQueueSize (step a s) = maxQueueSize s \<or>
   (\<exists>n. a = OpSetQueueSize n \<and> 0 < n \<and> n \<le> 10 \<and> maxQueueSize (step a s) = n)"
  by (cases a)
     (simp_all add: feed_frame setup_frame renderFromQueue_def setQueueSize_def enable_def
        disable_def flush_def pause_def resume_def logMessage_def Let_def split: list.splits)

lemma step_le10:
  assumes "length (sampleQueue s) \<le> 10" "unat (maxQueueSize s) \<le> 10"
  shows "length (sampleQueue (step a s)) \<le> 10 \<and> unat (maxQueueSize (step a s)) \<le> 10"
proof -
  have cap: "unat (maxQueueSize (step a s)) \<le> 10"
    using step_capacity [of a s] assms(2) by (auto simp: word_le_nat_alt)
  have "length (sampleQueue (step a s)) \<le> 10"
    using step_queue [of a s] assms by auto
  with cap show ?thesis by simp
qed

lemma run_le10:
  "length (sampleQueue s) \<le> 10 \<Longrightarrow> unat (maxQueueSize s) \<le> 10 \<Longrightarrow>
   length (sampleQueue (run ops s)) \<le> 10 \<and> unat (maxQueueSize (run ops s)) \<le> 10"
proof (induction ops arbitrary: s)
  case Nil
  then show ?case by simp
next
  case (Cons a ops)
  from step_le10 [OF Cons.prems, of a] Cons.IH [of "step a s"] show ?case by simp
qed

lemma step_bounded:
  assumes "length (sampleQueue s) \<le> unat (maxQueueSize s)"
    and "\<And>n. a = OpSetQueueSize n \<Longrightarrow> 0 < n \<Longrightarrow> n \<le> 10 \<Longrightarrow> length (sampleQueue s) \<le> unat n"
  shows "length (sampleQueue (step a s)) \<le> unat (maxQueueSize (step a s))"
proof (cases "\<exists>n. a = OpSetQueueSize n")
  case True
  then obtain n where a: "a = OpSetQueueSize n" ..
  show ?thesis
    using assms(1) assms(2) [OF a] by (auto simp: a setQueueSize_def logMessage_def)
next
  case False
  with step_capacity [of a s] have "maxQueueSize (step a s) = maxQueueSize s" by auto
  with step_queue [of a s] assms(1) show ?thesis by auto
qed

lemma run_bounded:
  "length (sampleQueue s) \<le> unat (maxQueueSize s) \<Longrightarrow> noShrink ops s \<Longrightarrow>
   length (sampleQueue (run ops s)) \<le> unat (maxQueueSize (run ops s))"
proof (induction ops arbitrary: s)
  case Nil
  then show ?case by simp
next
  case (Cons a ops)
  have next_ok: "noShrink ops (step a s)"
    using Cons.prems(2) by (cases a) simp_all
  have "length (sampleQueue (step a s)) \<le> unat (maxQueueSize (step a s))"
  proof (rule step_bounded [OF Cons.prems(1)])
    fix n assume "a = OpSetQueueSize n" "0 < n" "n \<le> 10"
    with Cons.prems(2) show "length (sampleQueue s) \<le> unat n" by simp
  qed
  from Cons.IH [OF this next_ok] show ?case by simp
qed

lemma init_bounds:
  "sampleQueue (init p) = []" "unat (maxQueueSize (init p)) \<le> 10"
  by (simp_all add: init_def)

lemma run_fill3:
  "length (sampleQueue (run fill3 (init macOS_current))) = 3"
  "maxQueueSize (run fill3 (init macOS_current)) = 3"
  "noShrink fill3 (init macOS_current)"
  by (simp_all add: fill3_def init_def macOS_current_def enable_def feedCall_def
        feedAudioData_def setupAudioFormat_def setQueueSize_def logMessage_def chunk48k_def
        ext_ok_def noErr_def Let_def)

text \<open>
  C4, as stated, fails: \<open>setQueueSize\<close> only stores the new capacity, so lowering
  it below the number of queued units leaves more units queued than the capacity. After
  \<open>enable\<close>, two accepted chunks and \<open>setQueueSize(1)\<close> the queue holds 2 units
  and the capacity is 1.
\<close>

theorem queue_bound_counterexample:
  "\<not> length (sampleQueue
         (run [OpEnable, OpFeed (chunk48k 100), OpFeed (chunk48k 100), OpSetQueueSize 1]
            (init macOS_current)))
     \<le> unat (maxQueueSize
         (run [OpEnable, OpFeed (chunk48k 100), OpFeed (chunk48k 100), OpSetQueueSize 1]
            (init macOS_current)))"
  by (simp add: init_def macOS_current_def enable_def feedCall_def feedAudioData_def
        setupAudioFormat_def setQueueSize_def logMessage_def chunk48k_def ext_ok_def noErr_def
        Let_def)

text \<open>
  C4, amended. In every state reached from \<open>init\<close> by any sequence of operations the
  queue holds at most 10 units, the largest capacity that can be set. It holds at most
  \<open>maxQueueSize\<close> units when no accepted \<open>setQueueSize\<close> of the run set a capacity
  below the number of units queued at that moment. And \<open>feedAudioData\<close> never
  enqueues when the queue holds \<open>maxQueueSize\<close> units or more: it returns 0 and
  the queue is as it was.
\<close>

theorem queue_bounded:
  "length (sampleQueue (run ops (init p))) \<le> 10 \<and>
   (noShrink ops (init p) \<longrightarrow>
      length (sampleQueue (run ops (init p))) \<le> unat (maxQueueSize (run ops (init p)))) \<and>
   (\<forall>c. unat (maxQueueSize (run ops (init p))) \<le> length (sampleQueue (run ops (init p))) \<longrightarrow>
      fst (feedCall c (run ops (init p))) = 0 \<and>
      sampleQueue (snd (feedCall c (run ops (init p)))) = sampleQueue (run ops (init p)))"
proof (intro conjI allI impI)
  show "length (sampleQueue (run ops (init p))) \<le> 10"
    using run_le10 [of "init p" ops] init_bounds [of p] by simp
next
  assume "noShrink ops (init p)"
  then show "length (sampleQueue (run ops (init p))) \<le> unat (maxQueueSize (run ops (init p)))"
    using run_bounded [of "init p" ops] init_bounds [of p] by simp
next
  fix c
  assume full: "unat (maxQueueSize (run ops (init p))) \<le> length (sampleQueue (run ops (init p)))"
  then show "fst (feedCall c (run ops (init p))) = 0" by (rule feed_full)
  then show "sampleQueue (snd (feedCall c (run ops (init p)))) = sampleQueue (run ops (init p))"
    by (rule feed_rejected_queue)
qed

theorem queue_bounded_witness:
  "noShrink fill3 (init macOS_current) \<and>
   length (sampleQueue (run fill3 (init macOS_current))) \<le> 10 \<and>
   length (sampleQueue (run fill3 (init macOS_current)))
     \<le> unat (maxQueueSize (run fill3 (init macOS_current))) \<and>
   unat (maxQueueSize (run fill3 (init macOS_current)))
     \<le> length (sampleQueue (run fill3 (init macOS_current))) \<and>
   fst (feedCall (chunk48k 100) (run fill3 (init macOS_current))) = 0 \<and>
   sampleQueue (snd (feedCall (chunk48k 100) (run fill3 (init macOS_current)))) =
     sampleQueue (run fill3 (init macOS_current))"
  using queue_bounded [of fill3 macOS_current] run_fill3 by simp

section \<open>Backpressure\<close>

lemma feedSeq_full:
  "room s = 0 \<Longrightarrow>
   map fst (feedSeq cs s) = replicate (length cs) 0 \<and>
   sampleQueue (feedAll cs s) = sampleQueue s"
proof (induction cs arbitrary: s)
  case Nil
  then show ?case by simp
next
  case (Cons c cs)
  let ?s1 = "snd (feedCall c s)"
  from Cons.prems have full: "unat (maxQueueSize s) \<le> length (sampleQueue s)"
    by (simp add: room_def)
  have rej: "fst (feedCall c s) = 0" using full by (rule feed_full)
  have q1: "sampleQueue ?s1 = sampleQueue s" using rej by (rule feed_rejected_queue)
  have "room ?s1 = 0" using full by (simp add: room_def feed_frame q1)
  from Cons.IH [OF this] have
    "map fst (feedSeq cs ?s1) = replicate (length cs) 0"
    "sampleQueue (feedAll cs ?s1) = sampleQueue ?s1" by simp_all
  then show ?case by (simp add: rej q1)
qed

lemma feedSeq_room:
  assumes "isEnabled s" "\<not> isPaused s" "macOS11 (os s)" "list_all acceptable cs"
  shows "map fst (feedSeq cs s) =
           map c_frameCount (take (room s) cs) @ replicate (length cs - room s) 0 \<and>
         length (sampleQueue (feedAll cs s)) = length (sampleQueue s) + min (length cs) (room s) \<and>
         sampleQueue (feedAll (take (room s) cs) s) = sampleQueue (feedAll cs s)"
  using assms
proof (induction cs arbitrary: s)
  case Nil
  then show ?case by simp
next
  case (Cons c cs)
  let ?s1 = "snd (feedCall c s)"
  show ?case
  proof (cases "room s")
    case 0
    from feedSeq_full [OF 0, of "c # cs"] show ?thesis
      by (simp only: 0 take_0 feedAll.simps list.map append_Nil minus_nat.diff_0
            min_0R add_0_right simp_thms)
  next
    case (Suc m)
    have flags: "isEnabled ?s1" "\<not> isPaused ?s1" "macOS11 (os ?s1)" "list_all acceptable cs"
      using Cons.prems by (simp_all add: feed_frame)
    have free: "length (sampleQueue s) < unat (maxQueueSize s)"
      using Suc by (simp add: room_def)
    have acc: "fst (feedCall c s) = c_frameCount c"
      using Cons.prems free by (intro feed_accepts) simp_all
    moreover have "c_frameCount c \<noteq> 0"
      using Cons.prems(4) by (simp add: acceptable_def)
    ultimately have nz: "fst (feedCall c s) \<noteq> 0" by simp
    have q1: "length (sampleQueue ?s1) = Suc (length (sampleQueue s))"
      using feed_accepted(5) [OF nz] by simp
    have r1: "room ?s1 = m"
      using Suc q1 by (simp add: room_def feed_frame)
    from Cons.IH [OF flags] have
      a: "map fst (feedSeq cs ?s1) =
           map c_frameCount (take m cs) @ replicate (length cs - m) 0" and
      b: "length (sampleQueue (feedAll cs ?s1)) = length (sampleQueue ?s1) + min (length cs) m" and
      c: "sampleQueue (feedAll (take m cs) ?s1) = sampleQueue (feedAll cs ?s1)"
      by (simp_all only: r1)
    have 1: "map fst (feedSeq (c # cs) s) =
           map c_frameCount (take (room s) (c # cs)) @ replicate (length (c # cs) - room s) 0"
      by (simp add: Suc acc a)
    have 2: "length (sampleQueue (feedAll (c # cs) s)) =
           length (sampleQueue s) + min (length (c # cs)) (room s)"
      by (simp add: Suc b q1)
    have 3: "sampleQueue (feedAll (take (room s) (c # cs)) s) = sampleQueue (feedAll (c # cs) s)"
      by (simp add: Suc c)
    from 1 2 3 show ?thesis by blast
  qed
qed

text \<open>
  C3. On an enabled engine that is not paused and whose queue is empty, with nothing
  rendered in between, a sequence of calls that are each acceptable (valid arguments,
  every platform object created) is answered as follows: the first \<open>maxQueueSize\<close>
  calls return their frame count, every later call returns 0; afterwards
  \<open>pendingBufferCount\<close> is the smaller of the number of calls and the capacity; and
  the queue is what the accepted calls alone leave, so a rejected call does not change
  it. \<open>feedAudioData\<close> is a total function: no call blocks. The witness is the
  scenario of the spec: capacity 3, five chunks of 100 frames at 48000 Hz.
\<close>

theorem feed_backpressure:
  assumes "isEnabled s" "\<not> isPaused s" "macOS11 (os s)" "sampleQueue s = []"
    and "list_all acceptable cs"
  shows "map fst (feedSeq cs s) =
           map c_frameCount (take (unat (maxQueueSize s)) cs) @
           replicate (length cs - unat (maxQueueSize s)) 0 \<and>
         pendingBufferCount (feedAll cs s) = of_nat (min (length cs) (unat (maxQueueSize s))) \<and>
         sampleQueue (feedAll (take (unat (maxQueueSize s)) cs) s) = sampleQueue (feedAll cs s)"
proof -
  have r: "room s = unat (maxQueueSize s)"
    using assms(4) by (simp add: room_def)
  from feedSeq_room [OF assms(1,2,3,5)] have
    a: "map fst (feedSeq cs s) =
           map c_frameCount (take (room s) cs) @ replicate (length cs - room s) 0" and
    b: "length (sampleQueue (feedAll cs s)) = length (sampleQueue s) + min (length cs) (room s)" and
    c: "sampleQueue (feedAll (take (room s) cs) s) = sampleQueue (feedAll cs s)"
    by blast+
  have "pendingBufferCount (feedAll cs s) = of_nat (min (length cs) (unat (maxQueueSize s)))"
    unfolding pendingBufferCount_def b r using assms(4) by simp
  with a c show ?thesis unfolding r by blast
qed

theorem feed_backpressure_witness:
  "isEnabled engine3 \<and> \<not> isPaused engine3 \<and> macOS11 (os engine3) \<and> sampleQueue engine3 = [] \<and>
   list_all acceptable (replicate 5 (chunk48k 100)) \<and>
   unat (maxQueueSize engine3) = 3 \<and>
   map fst (feedSeq (replicate 5 (chunk48k 100)) engine3) = [100, 100, 100, 0, 0] \<and>
   pendingBufferCount (feedAll (replicate 5 (chunk48k 100)) engine3) = 3"
proof -
  have acc: "list_all acceptable (replicate 5 (chunk48k 100))"
    by (simp add: list_all_iff acceptable_chunk48k)
  have five: "replicate 5 (chunk48k 100) =
      [chunk48k 100, chunk48k 100, chunk48k 100, chunk48k 100, chunk48k 100]"
    by (simp add: numeral_eq_Suc)
  have rets: "replicate 3 (100 :: u64) @ replicate 2 0 = [100, 100, 100, 0, 0]"
    by (simp add: numeral_eq_Suc)
  from feed_backpressure [OF engine3_fields(1,2,3,4) acc] acc show ?thesis
    by (simp add: engine3_fields five chunk48k_def rets)
qed

section \<open>Pause and resume\<close>





lemma engine3_two_fields:
  "isEnabled engine3_two" "\<not> isPaused engine3_two" "macOS11 (os engine3_two)"
  "map sb_numSamples (sampleQueue engine3_two) = [100, 200]"
  "map_option r_enqueued (renderer engine3_two) = Some []"
  by (simp_all add: engine3_two_def engine3_def init_def macOS_current_def enable_def
        feedCall_def feedAudioData_def setupAudioFormat_def setQueueSize_def logMessage_def
        chunk48k_def ext_ok_def noErr_def Let_def)



section \<open>Flush\<close>

text \<open>
  C1. \<open>flush\<close> resets the two time stamps and flushes the renderer, and leaves the
  engine enabled; it does not touch \<open>sampleQueue\<close>. On the engine with two queued
  units, \<open>pendingBufferCount\<close> is 2 before \<open>flush\<close> and 2 after it.
\<close>

theorem flush_keeps_queued_units:
  "isEnabled engine3_two \<and> pendingBufferCount engine3_two = 2 \<and>
   pendingBufferCount (flush engine3_two) = 2 \<and>
   sampleQueue (flush engine3_two) = sampleQueue engine3_two \<and>
   nextPresentationTime (flush engine3_two) = kCMTimeZero \<and>
   isEnabled (flush engine3_two) \<and> \<not> isPaused (flush engine3_two)"
proof -
  have "length (sampleQueue engine3_two) = 2"
    using engine3_two_fields(4) [THEN arg_cong, of length] by simp
  then show ?thesis
    using engine3_two_fields(1,2,3)
    by (simp add: pendingBufferCount_def flush_def Let_def)
qed

section \<open>The timeline\<close>























section \<open>The converter against the scalar cast\<close>

lemma vld1q_f64_ok:
  "p + 2 \<le> length mem \<Longrightarrow> vld1q_f64 mem p = Some (mem ! p, mem ! (p + 1))"
  by (simp add: vld1q_f64_def)

lemma vst1q_f32_ok:
  "p + 4 \<le> length mem \<Longrightarrow>
   vst1q_f32 mem p (a, b, c, d) = Some (mem[p := a, p + 1 := b, p + 2 := c, p + 3 := d])"
  by (simp add: vst1q_f32_def)

text \<open>One four-lane store, described index by index.\<close>

lemma store4_lanes:
  assumes "p + 4 \<le> length mem"
  shows "\<exists>out. vst1q_f32 mem p (a, b, c, d) = Some out \<and> length out = length mem \<and>
           (\<forall>i < length mem. out ! i =
              (if p \<le> i \<and> i < p + 4 then [a, b, c, d] ! (i - p) else mem ! i))"
proof -
  let ?out = "mem[p := a, p + 1 := b, p + 2 := c, p + 3 := d]"
  have "?out ! i = (if p \<le> i \<and> i < p + 4 then [a, b, c, d] ! (i - p) else mem ! i)"
    if "i < length mem" for i
  proof (cases "p \<le> i \<and> i < p + 4")
    case False
    then show ?thesis using that assms by (auto simp: nth_list_update)
  next
    case True
    then obtain j where j: "i = p + j" "j < 4"
      by (metis add_diff_inverse_nat less_diff_conv2 linorder_not_less add.commute)
    then consider "j = 0" | "j = 1" | "j = 2" | "j = 3" by linarith
    then show ?thesis using that assms j
      by cases (simp_all add: nth_list_update)
  qed
  then show ?thesis using assms by (simp add: vst1q_f32_ok)
qed

text \<open>Four samples loaded from \<open>s\<close>, narrowed and stored at \<open>p\<close>.\<close>

lemma quad_store:
  assumes "p + 4 \<le> length mem" and "s' = s + 2"
  shows "\<exists>out. vst1q_f32 mem p
            (vcombine_f32 (vcvt_f32_f64 cvt (input ! s, input ! (s + 1)))
                          (vcvt_f32_f64 cvt (input ! s', input ! (s' + 1)))) = Some out \<and>
           length out = length mem \<and>
           (\<forall>i < length mem. out ! i =
              (if p \<le> i \<and> i < p + 4 then cvt (input ! (s + (i - p))) else mem ! i))"
proof -
  let ?a = "cvt (input ! s)" and ?b = "cvt (input ! (s + 1))"
  let ?c = "cvt (input ! (s + 2))" and ?d = "cvt (input ! (s + 3))"
  from store4_lanes [OF assms(1), of ?a ?b ?c ?d] obtain out where
    out: "vst1q_f32 mem p (?a, ?b, ?c, ?d) = Some out" "length out = length mem"
      "\<forall>i < length mem. out ! i =
         (if p \<le> i \<and> i < p + 4 then [?a, ?b, ?c, ?d] ! (i - p) else mem ! i)"
    by blast
  have lane: "[?a, ?b, ?c, ?d] ! j = cvt (input ! (s + j))" if "j < 4" for j
  proof -
    from that consider "j = 0" | "j = 1" | "j = 2" | "j = 3" by linarith
    then show ?thesis by cases simp_all
  qed
  have "out ! i = (if p \<le> i \<and> i < p + 4 then cvt (input ! (s + (i - p))) else mem ! i)"
    if "i < length mem" for i
  proof (cases "p \<le> i \<and> i < p + 4")
    case True
    then have "i - p < 4" by linarith
    then have e2: "[?a, ?b, ?c, ?d] ! (i - p) = cvt (input ! (s + (i - p)))" by (rule lane)
    have e1: "out ! i = [?a, ?b, ?c, ?d] ! (i - p)"
      using out(3) [rule_format, OF that] True by (simp only: if_True simp_thms)
    from e1 e2 have "out ! i = cvt (input ! (s + (i - p)))" by (rule trans)
    with True show ?thesis by (simp only: if_True simp_thms)
  next
    case False
    have "out ! i = mem ! i"
      using out(3) [rule_format, OF that] False by (simp only: if_False simp_thms)
    with False show ?thesis by (simp only: if_False simp_thms)
  qed
  moreover have "vst1q_f32 mem p
            (vcombine_f32 (vcvt_f32_f64 cvt (input ! s, input ! (s + 1)))
                          (vcvt_f32_f64 cvt (input ! s', input ! (s' + 1)))) = Some out"
  proof -
    have i3: "s + 2 + 1 = s + 3" by simp
    show ?thesis
      unfolding vcombine_f32_def vcvt_f32_f64_def fst_conv snd_conv assms(2) i3
      by (rule out(1))
  qed
  ultimately show ?thesis using out(2) by blast
qed

lemma neon_block_ok:
  assumes "src + 16 \<le> length input" "dst + 16 \<le> length output"
  shows "\<exists>out. neon_block cvt input src output dst = Some out \<and>
           length out = length output \<and>
           (\<forall>i < length output. out ! i =
              (if dst \<le> i \<and> i < dst + 16 then cvt (input ! (src + (i - dst))) else output ! i))"
proof -
  have "\<exists>o1. vst1q_f32 output dst
           (vcombine_f32 (vcvt_f32_f64 cvt (input ! src, input ! (src + 1)))
                         (vcvt_f32_f64 cvt (input ! (src + 2), input ! (src + 2 + 1)))) = Some o1 \<and>
      length o1 = length output \<and>
      (\<forall>i < length output. o1 ! i =
         (if dst \<le> i \<and> i < dst + 4 then cvt (input ! (src + (i - dst))) else output ! i))"
    by (rule quad_store) (use assms in simp_all)
  then obtain o1 where
    o1: "vst1q_f32 output dst
           (vcombine_f32 (vcvt_f32_f64 cvt (input ! src, input ! (src + 1)))
                         (vcvt_f32_f64 cvt (input ! (src + 2), input ! (src + 2 + 1)))) = Some o1"
      "length o1 = length output"
      "\<forall>i < length output. o1 ! i =
         (if dst \<le> i \<and> i < dst + 4 then cvt (input ! (src + (i - dst))) else output ! i)"
    by blast
  have "\<exists>o2. vst1q_f32 o1 (dst + 4)
           (vcombine_f32 (vcvt_f32_f64 cvt (input ! (src + 4), input ! (src + 4 + 1)))
                         (vcvt_f32_f64 cvt (input ! (src + 6), input ! (src + 6 + 1)))) = Some o2 \<and>
      length o2 = length o1 \<and>
      (\<forall>i < length o1. o2 ! i =
         (if dst + 4 \<le> i \<and> i < dst + 4 + 4 then cvt (input ! (src + 4 + (i - (dst + 4))))
          else o1 ! i))"
    by (rule quad_store) (use assms o1(2) in simp_all)
  then obtain o2 where
    o2: "vst1q_f32 o1 (dst + 4)
           (vcombine_f32 (vcvt_f32_f64 cvt (input ! (src + 4), input ! (src + 4 + 1)))
                         (vcvt_f32_f64 cvt (input ! (src + 6), input ! (src + 6 + 1)))) = Some o2"
      "length o2 = length o1"
      "\<forall>i < length o1. o2 ! i =
         (if dst + 4 \<le> i \<and> i < dst + 4 + 4 then cvt (input ! (src + 4 + (i - (dst + 4))))
          else o1 ! i)"
    by blast
  have "\<exists>o3. vst1q_f32 o2 (dst + 8)
           (vcombine_f32 (vcvt_f32_f64 cvt (input ! (src + 8), input ! (src + 8 + 1)))
                         (vcvt_f32_f64 cvt (input ! (src + 10), input ! (src + 10 + 1)))) = Some o3 \<and>
      length o3 = length o2 \<and>
      (\<forall>i < length o2. o3 ! i =
         (if dst + 8 \<le> i \<and> i < dst + 8 + 4 then cvt (input ! (src + 8 + (i - (dst + 8))))
          else o2 ! i))"
    by (rule quad_store) (use assms o1(2) o2(2) in simp_all)
  then obtain o3 where
    o3: "vst1q_f32 o2 (dst + 8)
           (vcombine_f32 (vcvt_f32_f64 cvt (input ! (src + 8), input ! (src + 8 + 1)))
                         (vcvt_f32_f64 cvt (input ! (src + 10), input ! (src + 10 + 1)))) = Some o3"
      "length o3 = length o2"
      "\<forall>i < length o2. o3 ! i =
         (if dst + 8 \<le> i \<and> i < dst + 8 + 4 then cvt (input ! (src + 8 + (i - (dst + 8))))
          else o2 ! i)"
    by blast
  have "\<exists>o4. vst1q_f32 o3 (dst + 12)
           (vcombine_f32 (vcvt_f32_f64 cvt (input ! (src + 12), input ! (src + 12 + 1)))
                         (vcvt_f32_f64 cvt (input ! (src + 14), input ! (src + 14 + 1)))) = Some o4 \<and>
      length o4 = length o3 \<and>
      (\<forall>i < length o3. o4 ! i =
         (if dst + 12 \<le> i \<and> i < dst + 12 + 4 then cvt (input ! (src + 12 + (i - (dst + 12))))
          else o3 ! i))"
    by (rule quad_store) (use assms o1(2) o2(2) o3(2) in simp_all)
  then obtain o4 where
    o4: "vst1q_f32 o3 (dst + 12)
           (vcombine_f32 (vcvt_f32_f64 cvt (input ! (src + 12), input ! (src + 12 + 1)))
                         (vcvt_f32_f64 cvt (input ! (src + 14), input ! (src + 14 + 1)))) = Some o4"
      "length o4 = length o3"
      "\<forall>i < length o3. o4 ! i =
         (if dst + 12 \<le> i \<and> i < dst + 12 + 4 then cvt (input ! (src + 12 + (i - (dst + 12))))
          else o3 ! i)"
    by blast
  have len: "length o1 = length output" "length o2 = length output"
    "length o3 = length output" "length o4 = length output"
    using o1(2) o2(2) o3(2) o4(2) by simp_all
  have run: "neon_block cvt input src output dst = Some o4"
    using o1(1) o2(1) o3(1) o4(1) assms by (simp add: neon_block_def vld1q_f64_ok)
  have "o4 ! i = (if dst \<le> i \<and> i < dst + 16 then cvt (input ! (src + (i - dst))) else output ! i)"
    if i: "i < length output" for i
  proof -
    from i len have i': "i < length o1" "i < length o2" "i < length o3" by simp_all
    note f = o1(3) [rule_format, OF i] o2(3) [rule_format, OF i'(1)]
      o3(3) [rule_format, OF i'(2)] o4(3) [rule_format, OF i'(3)]
    consider (out) "i < dst \<or> dst + 16 \<le> i"
      | (q1) "dst \<le> i" "i < dst + 4" | (q2) "dst + 4 \<le> i" "i < dst + 8"
      | (q3) "dst + 8 \<le> i" "i < dst + 12" | (q4) "dst + 12 \<le> i" "i < dst + 16"
      by linarith
    then show ?thesis
    proof cases
      case out
      with f show ?thesis by auto
    next
      case q1
      with f show ?thesis by simp
    next
      case q2
      then have "src + 4 + (i - (dst + 4)) = src + (i - dst)" by linarith
      with f q2 show ?thesis by simp
    next
      case q3
      then have "src + 8 + (i - (dst + 8)) = src + (i - dst)" by linarith
      with f q3 show ?thesis by simp
    next
      case q4
      then have "src + 12 + (i - (dst + 12)) = src + (i - dst)" by linarith
      with f q4 show ?thesis by simp
    qed
  qed
  with run len(4) show ?thesis by simp
qed

lemma neon_loop_ok:
  "src + 16 * n \<le> length input \<Longrightarrow> dst + 16 * n \<le> length output \<Longrightarrow>
   \<exists>out. neon_loop cvt n input src output dst = Some (src + 16 * n, dst + 16 * n, out) \<and>
         length out = length output \<and>
         (\<forall>i < length output. out ! i =
            (if dst \<le> i \<and> i < dst + 16 * n then cvt (input ! (src + (i - dst)))
             else output ! i))"
proof (induction n arbitrary: src dst "output")
  case 0
  then show ?case by auto
next
  case (Suc n)
  from Suc.prems have b: "src + 16 \<le> length input" "dst + 16 \<le> length output" by simp_all
  from neon_block_ok [OF b, of cvt] obtain o1 where
    o1: "neon_block cvt input src output dst = Some o1" "length o1 = length output"
      "\<forall>i < length output. o1 ! i =
         (if dst \<le> i \<and> i < dst + 16 then cvt (input ! (src + (i - dst))) else output ! i)"
    by blast
  from Suc.prems o1(2) have r: "src + 16 + 16 * n \<le> length input"
    "dst + 16 + 16 * n \<le> length o1" by simp_all
  from Suc.IH [OF r] obtain o2 where
    o2: "neon_loop cvt n input (src + 16) o1 (dst + 16) =
           Some (src + 16 + 16 * n, dst + 16 + 16 * n, o2)"
      "length o2 = length o1"
      "\<forall>i < length o1. o2 ! i =
         (if dst + 16 \<le> i \<and> i < dst + 16 + 16 * n
          then cvt (input ! (src + 16 + (i - (dst + 16)))) else o1 ! i)"
    by blast
  have run: "neon_loop cvt (Suc n) input src output dst =
      Some (src + 16 * Suc n, dst + 16 * Suc n, o2)"
    using o1(1) o2(1) by simp
  have "o2 ! i = (if dst \<le> i \<and> i < dst + 16 * Suc n then cvt (input ! (src + (i - dst)))
                  else output ! i)" if i: "i < length output" for i
  proof -
    from i o1(2) have i': "i < length o1" by simp
    note f = o1(3) [rule_format, OF i] o2(3) [rule_format, OF i']
    consider (out) "i < dst \<or> dst + 16 * Suc n \<le> i" | (first) "dst \<le> i" "i < dst + 16"
      | (rest) "dst + 16 \<le> i" "i < dst + 16 * Suc n" by linarith
    then show ?thesis
    proof cases
      case out
      with f show ?thesis by auto
    next
      case first
      with f show ?thesis by simp
    next
      case rest
      then have "src + 16 + (i - (dst + 16)) = src + (i - dst)" by linarith
      with f rest show ?thesis by simp
    qed
  qed
  with run o1(2) o2(2) show ?case by simp
qed

lemma tail_loop_ok:
  "i \<le> remaining \<Longrightarrow> src + remaining \<le> length input \<Longrightarrow> dst + remaining \<le> length output \<Longrightarrow>
   \<exists>out. tail_loop cvt i remaining input src output dst = Some out \<and>
         length out = length output \<and>
         (\<forall>j < length output. out ! j =
            (if dst + i \<le> j \<and> j < dst + remaining then cvt (input ! (src + (j - dst)))
             else output ! j))"
proof (induction "remaining - i" arbitrary: i "output")
  case 0
  then have "i = remaining" by simp
  then show ?case by auto
next
  case (Suc m)
  then have lt: "i < remaining" by simp
  let ?o1 = "output[dst + i := cvt (input ! (src + i))]"
  have m: "m = remaining - Suc i" using Suc.hyps(2) by simp
  from Suc.prems lt have p: "Suc i \<le> remaining" "src + remaining \<le> length input"
    "dst + remaining \<le> length ?o1" by simp_all
  from Suc.hyps(1) [OF m p] obtain out where
    out: "tail_loop cvt (Suc i) remaining input src ?o1 dst = Some out"
      "length out = length ?o1"
      "\<forall>j < length ?o1. out ! j =
         (if dst + Suc i \<le> j \<and> j < dst + remaining then cvt (input ! (src + (j - dst)))
          else ?o1 ! j)"
    by blast
  have inb: "src + i < length input" "dst + i < length output"
    using Suc.prems lt by simp_all
  have run: "tail_loop cvt i remaining input src output dst = Some out"
    using lt inb out(1) by (subst tail_loop.simps) simp
  have "out ! j = (if dst + i \<le> j \<and> j < dst + remaining then cvt (input ! (src + (j - dst)))
                   else output ! j)" if j: "j < length output" for j
  proof -
    from j have "j < length ?o1" by simp
    note f = out(3) [rule_format, OF this]
    consider (here) "j = dst + i" | (later) "dst + Suc i \<le> j" "j < dst + remaining"
      | (out) "j < dst + i \<or> dst + remaining \<le> j" by linarith
    then show ?thesis
    proof cases
      case here
      with f j lt show ?thesis by simp
    next
      case later
      with f show ?thesis by simp
    next
      case out
      with lt have "j \<noteq> dst + i" by linarith
      with f j out show ?thesis by auto
    qed
  qed
  with run out(2) show ?case by simp
qed

lemma neon_convert_nth:
  assumes "count \<le> length input" "count \<le> length output"
  shows "\<exists>out. neon_convert cvt input output count = Some out \<and> length out = length output \<and>
           (\<forall>i < length output. out ! i = (if i < count then cvt (input ! i) else output ! i))"
proof -
  let ?n = "count div 16" and ?r = "count mod 16"
  have split: "16 * ?n + ?r = count" by simp
  then have le: "16 * ?n \<le> count" by linarith
  from assms le have b: "0 + 16 * ?n \<le> length input" "0 + 16 * ?n \<le> length output" by simp_all
  from neon_loop_ok [OF b, of cvt] obtain o1 where
    o1: "neon_loop cvt ?n input 0 output 0 = Some (16 * ?n, 16 * ?n, o1)"
      "length o1 = length output"
      "\<forall>i < length output. o1 ! i = (if i < 16 * ?n then cvt (input ! i) else output ! i)"
    by auto
  from assms split o1(2) have t: "0 \<le> ?r" "16 * ?n + ?r \<le> length input"
    "16 * ?n + ?r \<le> length o1" by simp_all
  from tail_loop_ok [OF t, of cvt] obtain o2 where
    o2: "tail_loop cvt 0 ?r input (16 * ?n) o1 (16 * ?n) = Some o2"
      "length o2 = length o1"
      "\<forall>j < length o1. o2 ! j =
         (if 16 * ?n + 0 \<le> j \<and> j < 16 * ?n + ?r
          then cvt (input ! (16 * ?n + (j - 16 * ?n))) else o1 ! j)"
    by blast
  have run: "neon_convert cvt input output count = Some o2"
    using o1(1) o2(1) by (simp add: neon_convert_def)
  have "o2 ! i = (if i < count then cvt (input ! i) else output ! i)"
    if i: "i < length output" for i
  proof -
    from i o1(2) have "i < length o1" by simp
    note f = o1(3) [rule_format, OF i] o2(3) [rule_format, OF this]
    consider (blocks) "i < 16 * ?n" | (tail) "16 * ?n \<le> i" "i < count" | (out) "count \<le> i"
      by linarith
    then show ?thesis
    proof cases
      case blocks
      with le have "i < count" by linarith
      with f blocks show ?thesis by simp
    next
      case tail
      then have "16 * ?n + (i - 16 * ?n) = i" by linarith
      moreover from tail split have "i < 16 * ?n + ?r" by linarith
      ultimately show ?thesis using f tail by simp
    next
      case out
      with split have "\<not> i < 16 * ?n + ?r" "\<not> i < 16 * ?n" by linarith+
      with f out show ?thesis by simp
    qed
  qed
  with run o1(2) o2(2) show ?thesis by simp
qed

text \<open>
  C9. For every \<open>count\<close> and every input and output buffer of at least \<open>count\<close>
  elements, \<open>neon_convert\<close> returns (no load or store leaves a buffer) and its output
  is the elementwise cast of the first \<open>count\<close> inputs, in order, followed by the
  untouched rest of the output buffer: for every \<open>i < count\<close>, element \<open>i\<close> of the
  output is \<open>cvt (input ! i)\<close>. The sixteen-wide blocks and the scalar tail together
  write every index below \<open>count\<close> once and none above. The statement is for any
  narrowing \<open>cvt\<close>, so it holds for every input value, finite or not.
\<close>

theorem neon_convert_is_scalar_cast:
  assumes "count \<le> length input" "count \<le> length output"
  shows "neon_convert cvt input output count =
           Some (scalar_convert cvt (take count input) @ drop count output) \<and>
         (\<forall>i < count.
            (scalar_convert cvt (take count input) @ drop count output) ! i = cvt (input ! i))"
proof -
  from neon_convert_nth [OF assms, of cvt] obtain out where
    out: "neon_convert cvt input output count = Some out" "length out = length output"
      "\<forall>i < length output. out ! i = (if i < count then cvt (input ! i) else output ! i)"
    by blast
  have "out = scalar_convert cvt (take count input) @ drop count output"
  proof (rule nth_equalityI)
    show "length out = length (scalar_convert cvt (take count input) @ drop count output)"
      using assms out(2) by (simp add: scalar_convert_def)
  next
    fix i assume "i < length out"
    with out(2) have i: "i < length output" by simp
    from out(3) [rule_format, OF i] assms i
    show "out ! i = (scalar_convert cvt (take count input) @ drop count output) ! i"
      by (simp add: scalar_convert_def nth_append)
  qed
  moreover have "(scalar_convert cvt (take count input) @ drop count output) ! i = cvt (input ! i)"
    if "i < count" for i
    using that assms by (simp add: scalar_convert_def nth_append)
  ultimately show ?thesis using out(1) by simp
qed

theorem neon_convert_witness:
  "18 \<le> length [0..<20] \<and> 18 \<le> length (replicate 20 (0 :: nat)) \<and>
   neon_convert Suc [0..<20] (replicate 20 0) 18 = Some (map Suc [0..<18] @ replicate 2 0)"
  using neon_convert_is_scalar_cast [of 18 "[0..<20]" "replicate 20 (0 :: nat)" Suc]
  by (simp add: scalar_convert_def)

end
